theory Spec2Isabelle
  imports
    Complex_Main
    "HOL-Library.Multiset"
    "HOL-Library.Product_Lexorder"
    "HOL-Library.List_Lexorder"
    "HOL-Library.Char_ord"
begin

section \<open>Data model\<close>

text \<open>
  An instant is the number of milliseconds since the epoch, the value of
  \<^verbatim>\<open>new Date(d.timestamp).getTime()\<close>; it is an integer.  Every row is assumed to
  carry a valid date (the source never checks for an invalid one).  The value kept in
  \<^verbatim>\<open>timeRef\<close> is a JavaScript number that REPLAY mode advances by a possibly fractional
  step, so it is a \<^typ>\<open>real\<close>; rounding of binary floating point is not modelled.
\<close>

record stamped =
  timestamp :: int

text \<open>
  A row of the data set, with the fields that \<^verbatim>\<open>useLiveSimulation\<close> reads or writes.
  The remaining columns of the CSV file live in the extension part of the record.  A
  numeric field that is missing or zero fails the truthiness tests of the source in the same
  way, so the guarded fields are plain numbers.
\<close>

record reading = stamped +
  pct_lying :: real
  pct_standing :: real
  pct_walking :: real
  pct_eating :: real
  neck_temp_c :: real
  activity_index :: real
  heat_index :: real
  gps_lat :: real
  gps_long :: real

section \<open>Preparing the data: \<^verbatim>\<open>fullData\<close>\<close>

text \<open>
  \<^verbatim>\<open>Array.prototype.sort\<close> is stable, and the comparator is the difference of the
  two instants: the sorted copy is the stable sort by \<^const>\<open>timestamp\<close>.
\<close>

definition sorted_copy :: "('a stamped_scheme) list \<Rightarrow> ('a stamped_scheme) list" where
  "sorted_copy inputData = sort_key timestamp inputData"

definition day_ms :: int where
  "day_ms = 24 * 60 * 60 * 1000"

definition shift_back :: "'a stamped_scheme \<Rightarrow> 'a stamped_scheme" where
  "shift_back d = d\<lparr>timestamp := timestamp d - day_ms\<rparr>"

definition fullData ::
  "('a stamped_scheme) list \<Rightarrow> real \<Rightarrow> ('a stamped_scheme) list" where
  "fullData inputData historyHours =
     (if inputData = [] then []
      else let sorted = sorted_copy inputData in
        if historyHours \<le> 24 then sorted
        else let shifted = map shift_back sorted in shifted @ sorted)"

text \<open>
  The hook has no \<^verbatim>\<open>throw\<close> statement: seen from its caller, preparing the data
  always returns.  \<open>normalize_records\<close> is \<^const>\<open>fullData\<close> with that outcome made
  explicit; the errors are the two kinds that the specification names, and the code raises
  neither of them.
\<close>

datatype error = InvalidInputError | ConfigurationError

definition normalize_records ::
  "('a stamped_scheme) list \<Rightarrow> real \<Rightarrow> error + ('a stamped_scheme) list" where
  "normalize_records inputData historyHours = Inr (fullData inputData historyHours)"

text \<open>The intrinsic span of a non-empty list of rows, in milliseconds.\<close>

definition span_ms :: "('a stamped_scheme) list \<Rightarrow> int" where
  "span_ms ds = Max (set (map timestamp ds)) - Min (set (map timestamp ds))"

section \<open>The simulation clock\<close>

text \<open>
  The three refs of the hook once the timer is installed.  \<open>timeRef\<close> is the virtual
  ``now''; the other two are the bounds of the data set.
\<close>

record clock =
  timeRef :: real
  startTimeRef :: int
  endTimeRef :: int

text \<open>
  Mounting the hook on a prepared data set runs the effect that initialises the range and
  then the effect that installs the timer.  The refs start as \<^verbatim>\<open>null\<close>, so the first
  effect sets \<open>timeRef\<close> to the start.  The second effect returns early, without a timer,
  when the data set is empty or when a bound is falsy (the instant \<open>0\<close>): \<open>None\<close> is the
  clock that never ticks.
\<close>

definition mount :: "('a stamped_scheme) list \<Rightarrow> clock option" where
  "mount fd =
     (if fd = [] then None
      else let timestamps = map timestamp fd;
               s = Min (set timestamps);
               e = Max (set timestamps)
           in if s = 0 \<or> e = 0 then None
              else Some \<lparr>timeRef = real_of_int s, startTimeRef = s, endTimeRef = e\<rparr>)"

subsection \<open>LIVE mode\<close>

text \<open>
  The reading of the wall clock that the tick uses: \<^verbatim>\<open>getHours()\<close>, \<^verbatim>\<open>getMinutes()\<close>,
  \<^verbatim>\<open>getSeconds()\<close> of \<^verbatim>\<open>new Date()\<close>, and its milliseconds, which the tick never reads.
\<close>

record wall =
  hours :: nat
  minutes :: nat
  seconds :: nat
  milliseconds :: nat

text \<open>
  The rules of the local time zone are not part of the source: they come with the
  JavaScript engine.  They enter as the two offsets of the language definition, in
  milliseconds: the offset of local time at an instant, and the offset by which a local
  date and time is turned back into an instant (at a gap or an overlap of a daylight-saving
  change the engine picks one).  Nothing is assumed of them.
\<close>

record zone =
  LocalTZA_utc :: "int \<Rightarrow> int"
  LocalTZA_local :: "int \<Rightarrow> int"

definition LocalTime :: "zone \<Rightarrow> int \<Rightarrow> int" where
  "LocalTime tz t = t + LocalTZA_utc tz t"

definition UTC_time :: "zone \<Rightarrow> int \<Rightarrow> int" where
  "UTC_time tz t = t - LocalTZA_local tz t"

definition Day :: "int \<Rightarrow> int" where
  "Day t = t div day_ms"

definition msFromTime :: "int \<Rightarrow> int" where
  "msFromTime t = t mod 1000"

definition MakeTime :: "nat \<Rightarrow> nat \<Rightarrow> nat \<Rightarrow> int \<Rightarrow> int" where
  "MakeTime h m s ms = int h * 3600000 + int m * 60000 + int s * 1000 + ms"

definition MakeDate :: "int \<Rightarrow> int \<Rightarrow> int" where
  "MakeDate day time = day * day_ms + time"

text \<open>
  \<^verbatim>\<open>setHours(h, m, s)\<close> keeps the local calendar day and the milliseconds of the date it is
  applied to, and converts the new local date and time back to an instant.
\<close>

definition setHours :: "zone \<Rightarrow> int \<Rightarrow> nat \<Rightarrow> nat \<Rightarrow> nat \<Rightarrow> int" where
  "setHours tz t h m s =
     (let lt = LocalTime tz t
      in UTC_time tz (MakeDate (Day lt) (MakeTime h m s (msFromTime lt))))"

definition targetTime :: "zone \<Rightarrow> int \<Rightarrow> wall \<Rightarrow> int" where
  "targetTime tz e realNow = setHours tz e (hours realNow) (minutes realNow) (seconds realNow)"

definition live_now :: "zone \<Rightarrow> int \<Rightarrow> int \<Rightarrow> wall \<Rightarrow> int" where
  "live_now tz s e realNow =
     (let now = targetTime tz e realNow;
          now = (if now > e then now - day_ms else now);
          now = (if now < s then now + day_ms else now)
      in now)"

subsection \<open>REPLAY mode\<close>

definition msPerTick :: "real \<Rightarrow> real" where
  "msPerTick replaySpeed = (replaySpeed / 10) * 60 * 1000"

definition replay_now :: "real \<Rightarrow> int \<Rightarrow> int \<Rightarrow> real \<Rightarrow> real" where
  "replay_now replaySpeed s e now0 =
     (let now = now0 + msPerTick replaySpeed
      in if now \<ge> real_of_int e then real_of_int s else now)"

subsection \<open>Progress\<close>

text \<open>
  The quotient \<^verbatim>\<open>elapsed / total\<close> is the one place where the tick can leave the finite
  numbers: \<open>total\<close> is \<open>+0\<close> when the bounds coincide.  The results of JavaScript's
  division, product, \<^verbatim>\<open>Math.max\<close> and \<^verbatim>\<open>Math.min\<close> on such values are written out.
\<close>

datatype jsnum = Finite real | PosInf | NegInf | NaN

definition js_div :: "real \<Rightarrow> real \<Rightarrow> jsnum" where
  "js_div a b =
     (if b \<noteq> 0 then Finite (a / b)
      else if a = 0 then NaN
      else if a > 0 then PosInf else NegInf)"

fun js_times :: "jsnum \<Rightarrow> real \<Rightarrow> jsnum" where
  "js_times (Finite x) k = Finite (x * k)"
| "js_times PosInf k = (if k > 0 then PosInf else if k < 0 then NegInf else NaN)"
| "js_times NegInf k = (if k > 0 then NegInf else if k < 0 then PosInf else NaN)"
| "js_times NaN k = NaN"

fun js_max :: "real \<Rightarrow> jsnum \<Rightarrow> jsnum" where
  "js_max k (Finite x) = Finite (max k x)"
| "js_max k PosInf = PosInf"
| "js_max k NegInf = Finite k"
| "js_max k NaN = NaN"

fun js_min :: "real \<Rightarrow> jsnum \<Rightarrow> jsnum" where
  "js_min k (Finite x) = Finite (min k x)"
| "js_min k PosInf = Finite k"
| "js_min k NegInf = NegInf"
| "js_min k NaN = NaN"

definition progress_of :: "int \<Rightarrow> int \<Rightarrow> real \<Rightarrow> jsnum" where
  "progress_of s e now =
     (let total = real_of_int (e - s);
          elapsed = now - real_of_int s
      in js_min 100 (js_max 0 (js_times (js_div elapsed total) 100)))"

subsection \<open>Window and sensor noise\<close>

text \<open>
  The values of the calls of \<^verbatim>\<open>Math.random()\<close> of one tick, one per perturbed field.
  The perturbation is written over the reals: it says which fields of the last row change
  and by which formula, and leaves out the rounding of the double-precision sums and
  products of the code.  No statement below is about the size of the perturbation.
\<close>

record draws =
  rnd_lying :: real
  rnd_standing :: real
  rnd_walking :: real
  rnd_eating :: real
  rnd_neck_temp :: real
  rnd_activity :: real
  rnd_heat :: real
  rnd_lat :: real
  rnd_long :: real

definition noise :: "real \<Rightarrow> real" where
  "noise r = (r - 0.5) * 0.01"

definition clamp01 :: "real \<Rightarrow> real" where
  "clamp01 x = max 0 (min 1 x)"

definition jitter :: "real \<Rightarrow> real \<Rightarrow> real \<Rightarrow> real" where
  "jitter v r width = (if v \<noteq> 0 then v + (r - 0.5) * width else v)"

definition perturb :: "draws \<Rightarrow> 'a reading_scheme \<Rightarrow> 'a reading_scheme" where
  "perturb rs lastPoint =
     lastPoint\<lparr>
       pct_lying := clamp01 (pct_lying lastPoint + noise (rnd_lying rs)),
       pct_standing := clamp01 (pct_standing lastPoint + noise (rnd_standing rs)),
       pct_walking := clamp01 (pct_walking lastPoint + noise (rnd_walking rs)),
       pct_eating := clamp01 (pct_eating lastPoint + noise (rnd_eating rs)),
       neck_temp_c := jitter (neck_temp_c lastPoint) (rnd_neck_temp rs) 0.1,
       activity_index := jitter (activity_index lastPoint) (rnd_activity rs) 2,
       heat_index := jitter (heat_index lastPoint) (rnd_heat rs) 0.5,
       gps_lat := jitter (gps_lat lastPoint) (rnd_lat rs) 0.0001,
       gps_long := jitter (gps_long lastPoint) (rnd_long rs) 0.0001\<rparr>"

definition slice :: "('a stamped_scheme) list \<Rightarrow> real \<Rightarrow> ('a stamped_scheme) list" where
  "slice fd now = filter (\<lambda>d. real_of_int (timestamp d) \<le> now) fd"

definition add_noise :: "bool \<Rightarrow> draws \<Rightarrow> ('a reading_scheme) list \<Rightarrow> ('a reading_scheme) list" where
  "add_noise isLive rs sliced =
     (if isLive \<and> sliced \<noteq> [] then butlast sliced @ [perturb rs (last sliced)] else sliced)"

subsection \<open>One tick of the timer\<close>

text \<open>What one tick reads from outside: the wall clock and the random draws.\<close>

record env =
  realNow :: wall
  rnd :: draws

text \<open>
  What one tick publishes through the state setters of the hook.  The published time is
  \<^verbatim>\<open>new Date(now)\<close>, which drops the fraction of a millisecond.
\<close>

definition js_trunc :: "real \<Rightarrow> int" where
  "js_trunc x = (if x \<ge> 0 then \<lfloor>x\<rfloor> else \<lceil>x\<rceil>)"

record 'a tick_out =
  currentTime :: int
  progress :: jsnum
  liveData :: "('a reading_scheme) list"

definition tick ::
  "bool \<Rightarrow> real \<Rightarrow> zone \<Rightarrow> ('a reading_scheme) list \<Rightarrow> env \<Rightarrow> clock
    \<Rightarrow> clock \<times> 'a tick_out" where
  "tick isLive replaySpeed tz fd ev c =
     (let now = (if isLive
                 then real_of_int (live_now tz (startTimeRef c) (endTimeRef c) (realNow ev))
                 else replay_now replaySpeed (startTimeRef c) (endTimeRef c) (timeRef c))
      in (c\<lparr>timeRef := now\<rparr>,
          \<lparr>currentTime = js_trunc now,
           progress = progress_of (startTimeRef c) (endTimeRef c) now,
           liveData = add_noise isLive (rnd ev) (slice fd now)\<rparr>))"

text \<open>The timer fires again and again: the clocks and outputs of a run of ticks.\<close>

fun run :: "bool \<Rightarrow> real \<Rightarrow> zone \<Rightarrow> ('a reading_scheme) list \<Rightarrow> env list \<Rightarrow> clock
    \<Rightarrow> (clock \<times> 'a tick_out) list" where
  "run isLive replaySpeed tz fd [] c = []"
| "run isLive replaySpeed tz fd (ev # evs) c =
     (let (c', out) = tick isLive replaySpeed tz fd ev c
      in (c', out) # run isLive replaySpeed tz fd evs c')"

section \<open>Run-length segmentation of the Gantt chart\<close>

text \<open>
  A data point of the chart: the instant, the categorical state (0 lying, 1 standing,
  2 eating) and the animal it belongs to.
\<close>

record point = stamped +
  state :: nat
  animalId :: string

text \<open>A block of the chart; the fields carry the prefix \<open>block\<close> to keep them apart from
  those of a point.\<close>

record block =
  block_state :: nat
  block_start :: int
  block_end :: int
  block_animalId :: string

text \<open>
  The comparator orders by \<open>animalId\<close> and then by \<open>timestamp\<close>, and the sort is stable: the
  sorted copy is the stable sort by the lexicographic key.
\<close>

definition sort_key_of :: "point \<Rightarrow> string \<times> int" where
  "sort_key_of p = (animalId p, timestamp p)"

definition sortedData :: "point list \<Rightarrow> point list" where
  "sortedData dataPoints = sort_key sort_key_of dataPoints"

definition open_block :: "point \<Rightarrow> block" where
  "open_block p =
     \<lparr>block_state = state p, block_start = timestamp p, block_end = timestamp p,
      block_animalId = animalId p\<rparr>"

text \<open>The loop over the sorted points, with the blocks pushed so far and the open block.\<close>

fun scan :: "block list \<Rightarrow> block \<Rightarrow> point list \<Rightarrow> block list" where
  "scan blocks currentBlock [] = blocks @ [currentBlock]"
| "scan blocks currentBlock (p # ps) =
     (if state p \<noteq> block_state currentBlock \<or> animalId p \<noteq> block_animalId currentBlock
      then scan (blocks @ [currentBlock]) (open_block p) ps
      else scan blocks (currentBlock\<lparr>block_end := timestamp p\<rparr>) ps)"

definition segment :: "point list \<Rightarrow> block list" where
  "segment sd = (case sd of [] \<Rightarrow> [] | p # ps \<Rightarrow> scan [] (open_block p) ps)"

text \<open>The blocks of the chart; no chart data (\<^verbatim>\<open>null\<close>) for an empty array of points.\<close>

definition chart_blocks :: "point list \<Rightarrow> block list option" where
  "chart_blocks dataPoints =
     (if dataPoints = [] then None else Some (segment (sortedData dataPoints)))"

text \<open>
  A block covers a run of points: the run is not empty, all its points have the animal and
  the state of the block, the block starts at the first and ends at the last of them, and
  every instant of the run lies between the two.
\<close>

definition covers :: "block \<Rightarrow> point list \<Rightarrow> bool" where
  "covers b r \<longleftrightarrow>
     r \<noteq> [] \<and>
     list_all (\<lambda>p. animalId p = block_animalId b \<and> state p = block_state b \<and>
                    block_start b \<le> timestamp p \<and> timestamp p \<le> block_end b) r \<and>
     block_start b = timestamp (hd r) \<and> block_end b = timestamp (last r)"

text \<open>
  A point lies in a block when the block belongs to the animal of the point and the
  instant of the point is within the time range of the block.
\<close>

definition in_block :: "block \<Rightarrow> point \<Rightarrow> bool" where
  "in_block b p \<longleftrightarrow>
     block_animalId b = animalId p \<and> block_start b \<le> timestamp p \<and>
     timestamp p \<le> block_end b"

text \<open>The animal and the state of a block: what two neighbouring blocks must not share.\<close>

definition block_tag :: "block \<Rightarrow> string \<times> nat" where
  "block_tag b = (block_animalId b, block_state b)"

section \<open>Sample data\<close>

text \<open>A row at a given instant, a reading of the wall clock and a set of draws, used to
  run the definitions on concrete inputs.\<close>

definition sample_row :: "int \<Rightarrow> reading" where
  "sample_row t =
     \<lparr>timestamp = t, pct_lying = 0.6, pct_standing = 0.3, pct_walking = 0.05,
      pct_eating = 0.05, neck_temp_c = 38.5, activity_index = 12, heat_index = 72,
      gps_lat = 12.9716, gps_long = 77.5946\<rparr>"

definition sample_draws :: draws where
  "sample_draws =
     \<lparr>rnd_lying = 0.5, rnd_standing = 0, rnd_walking = 0.25, rnd_eating = 0.75,
      rnd_neck_temp = 0, rnd_activity = 0.75, rnd_heat = 0.25, rnd_lat = 0.5, rnd_long = 0\<rparr>"

definition sample_env :: env where
  "sample_env =
     \<lparr>realNow = \<lparr>hours = 12, minutes = 0, seconds = 0, milliseconds = 500\<rparr>,
      rnd = sample_draws\<rparr>"

text \<open>
  Two zones: universal time, and the east coast of the United States around the end of
  daylight-saving time on 5 November 2023 (four hours behind universal time until 06:00
  universal time of that day, five hours behind from then on; a local time before 02:00
  of that day is read as daylight-saving time).
\<close>

definition utc_zone :: zone where
  "utc_zone = \<lparr>LocalTZA_utc = (\<lambda>t. 0), LocalTZA_local = (\<lambda>t. 0)\<rparr>"

definition new_york :: zone where
  "new_york =
     \<lparr>LocalTZA_utc = (\<lambda>t. if t < 1699164000000 then - 14400000 else - 18000000),
      LocalTZA_local = (\<lambda>t. if t < 1699149600000 then - 14400000 else - 18000000)\<rparr>"

definition fall_back_clock :: clock where
  "fall_back_clock =
     \<lparr>timeRef = 1699070400000, startTimeRef = 1699070400000, endTimeRef = 1699156800000\<rparr>"

definition late_evening :: env where
  "late_evening =
     \<lparr>realNow = \<lparr>hours = 23, minutes = 30, seconds = 0, milliseconds = 0\<rparr>,
      rnd = sample_draws\<rparr>"

definition two_days :: "stamped list" where
  "two_days =
     [\<lparr>timestamp = 1700086400000\<rparr>, \<lparr>timestamp = 1700000000000\<rparr>,
      \<lparr>timestamp = 1700043200000\<rparr>]"

definition two_animals :: "point list" where
  "two_animals =
     [\<lparr>timestamp = 5, state = 1, animalId = ''B''\<rparr>,
      \<lparr>timestamp = 10, state = 0, animalId = ''A''\<rparr>,
      \<lparr>timestamp = 0, state = 0, animalId = ''A''\<rparr>,
      \<lparr>timestamp = 20, state = 1, animalId = ''A''\<rparr>]"

definition same_instant :: "point list" where
  "same_instant =
     [\<lparr>timestamp = 10, state = 0, animalId = ''A''\<rparr>,
      \<lparr>timestamp = 10, state = 1, animalId = ''A''\<rparr>]"

definition ten_minutes :: "reading list" where
  "ten_minutes = [sample_row 1700000000000, sample_row 1700000600000]"

definition ten_minutes_clock :: clock where
  "ten_minutes_clock =
     \<lparr>timeRef = 1700000000000, startTimeRef = 1700000000000, endTimeRef = 1700000600000\<rparr>"

definition full_day_clock :: clock where
  "full_day_clock =
     \<lparr>timeRef = 1699956000000, startTimeRef = 1699956000000, endTimeRef = 1700042400000\<rparr>"

section \<open>Preparing the data: properties\<close>

lemma timestamp_shift_back: "timestamp (shift_back d) = timestamp d - day_ms"
  by (simp add: shift_back_def)

lemma sorted_sorted_copy: "sorted (map timestamp (sorted_copy ds))"
  by (simp add: sorted_copy_def)

lemma set_sorted_copy: "set (sorted_copy ds) = set ds"
  by (simp add: sorted_copy_def)

lemma length_sorted_copy: "length (sorted_copy ds) = length ds"
  by (simp add: sorted_copy_def)

lemma sorted_map_shift:
  "sorted (map timestamp ds) \<Longrightarrow> sorted (map timestamp (map shift_back ds))"
  by (induction ds) (auto simp: timestamp_shift_back)

lemma fullData_extended:
  "24 < historyHours \<Longrightarrow>
   fullData inputData historyHours = map shift_back (sorted_copy inputData) @ sorted_copy inputData"
  by (simp add: fullData_def Let_def sorted_copy_def)

text \<open>
  C5.  For a data set that spans exactly 24 hours, with \<open>N\<close> rows, the 48-hour data set has
  \<open>2N\<close> rows; its last \<open>N\<close> rows are the sorted input, each of its first \<open>N\<close> rows is the
  row \<open>N\<close> places later with the instant moved back by 24 hours and nothing else changed,
  and the whole sequence is sorted by instant.
\<close>

theorem horizon_doubling:
  fixes inputData :: "('a stamped_scheme) list"
  assumes span: "span_ms inputData = day_ms"
  defines "N \<equiv> length inputData"
  defines "out \<equiv> fullData inputData 48"
  shows "length out = 2 * N
    \<and> drop N out = sorted_copy inputData
    \<and> (\<forall>i<N. out ! i = shift_back (out ! (N + i))
             \<and> timestamp (out ! i) = timestamp (out ! (N + i)) - day_ms)
    \<and> sorted (map timestamp out)"
proof -
  let ?s = "sorted_copy inputData"
  have out: "out = map shift_back ?s @ ?s"
    by (simp add: out_def fullData_extended)
  have len: "length ?s = N" by (simp add: N_def length_sorted_copy)
  have c1: "length out = 2 * N" by (simp add: out len)
  have c2: "drop N out = ?s" by (simp add: out len)
  have c3: "out ! i = shift_back (out ! (N + i))
      \<and> timestamp (out ! i) = timestamp (out ! (N + i)) - day_ms" if "i < N" for i
    using that len by (simp add: out nth_append timestamp_shift_back)
  have fin: "finite (timestamp ` set inputData)" by simp
  have cross: "timestamp a \<le> timestamp b"
    if "a \<in> set (map shift_back ?s)" "b \<in> set ?s" for a b
  proof -
    from that(1) obtain d where d: "d \<in> set inputData" "a = shift_back d"
      by (auto simp: set_sorted_copy)
    have b: "b \<in> set inputData" using that(2) by (simp add: set_sorted_copy)
    have "timestamp d \<le> Max (timestamp ` set inputData)" using d(1) fin by simp
    moreover have "Min (timestamp ` set inputData) \<le> timestamp b" using b fin by simp
    moreover have "Max (timestamp ` set inputData) - Min (timestamp ` set inputData) = day_ms"
      using span by (simp add: span_ms_def)
    ultimately show ?thesis by (simp add: d(2) timestamp_shift_back)
  qed
  have c4: "sorted (map timestamp out)"
    unfolding out map_append sorted_append
    using sorted_sorted_copy[of inputData] sorted_map_shift[OF sorted_sorted_copy, of inputData]
      cross
    by auto
  from c1 c2 c3 c4 show ?thesis by blast
qed

theorem horizon_doubling_witness:
  "span_ms two_days = day_ms
   \<and> length (fullData two_days 48) = 6
   \<and> map timestamp (fullData two_days 48) =
       [1699913600000, 1699956800000, 1700000000000,
        1700000000000, 1700043200000, 1700086400000]
   \<and> sorted (map timestamp (fullData two_days 48))"
proof -
  have h: "span_ms two_days = day_ms"
    by (simp add: two_days_def span_ms_def day_ms_def)
  have v: "map timestamp (fullData two_days 48) =
       [1699913600000, 1699956800000, 1700000000000,
        1700000000000, 1700043200000, 1700086400000]"
    by (simp add: two_days_def fullData_def sorted_copy_def shift_back_def day_ms_def)
  from horizon_doubling[OF h] h v show ?thesis by (simp add: two_days_def)
qed

text \<open>
  C6 as stated fails: the hook compares the requested horizon with the constant 24, not
  with the span of the data.  Two rows 72 hours apart and a horizon of 48 hours: the horizon
  is below the span, and the result has four rows.
\<close>

theorem non_extending_horizon_counterexample:
  "[\<lparr>timestamp = 1700000000000\<rparr>, \<lparr>timestamp = 1700259200000\<rparr>] \<noteq> []
   \<and> 48 * 3600000
       \<le> real_of_int (span_ms [\<lparr>timestamp = 1700000000000\<rparr>, \<lparr>timestamp = 1700259200000\<rparr>])
   \<and> length (fullData [\<lparr>timestamp = 1700000000000\<rparr>, \<lparr>timestamp = 1700259200000\<rparr>] 48)
       \<noteq> length [\<lparr>timestamp = 1700000000000\<rparr>, \<lparr>timestamp = 1700259200000::int\<rparr>]"
  by (simp add: span_ms_def fullData_def sorted_copy_def)

text \<open>
  C6 (amended).  For every non-empty list of rows and every requested horizon of at most 24
  hours, the prepared data are the input rows sorted by instant: sorted, of the same length,
  the same rows with the same multiplicities, and rows with equal instants keep their
  original relative order.
\<close>

theorem non_extending_horizon:
  fixes inputData :: "('a stamped_scheme) list"
  assumes "inputData \<noteq> []" and "historyHours \<le> 24"
  defines "out \<equiv> fullData inputData historyHours"
  shows "sorted (map timestamp out)
    \<and> length out = length inputData
    \<and> mset out = mset inputData
    \<and> (\<forall>k. filter (\<lambda>d. timestamp d = k) out = filter (\<lambda>d. timestamp d = k) inputData)"
proof -
  have out: "out = sort_key timestamp inputData"
    using assms(1,2) by (simp add: out_def fullData_def sorted_copy_def)
  show ?thesis unfolding out by (simp add: sort_key_stable)
qed

theorem non_extending_horizon_witness:
  "two_days \<noteq> [] \<and> (24::real) \<le> 24
   \<and> fullData two_days 24 =
       [\<lparr>timestamp = 1700000000000\<rparr>, \<lparr>timestamp = 1700043200000\<rparr>,
        \<lparr>timestamp = 1700086400000\<rparr>]
   \<and> length (fullData two_days 24) = length two_days
   \<and> mset (fullData two_days 24) = mset two_days"
proof -
  have h1: "two_days \<noteq> []" by (simp add: two_days_def)
  have h2: "(24::real) \<le> 24" by simp
  have v: "fullData two_days 24 =
       [\<lparr>timestamp = 1700000000000\<rparr>, \<lparr>timestamp = 1700043200000\<rparr>,
        \<lparr>timestamp = 1700086400000\<rparr>]"
    by (simp add: two_days_def fullData_def sorted_copy_def)
  from non_extending_horizon[OF h1 h2] h1 v show ?thesis by simp
qed

text \<open>
  C7 as stated fails: on the empty list the preparation returns normally, whatever the
  horizon; no error is raised.
\<close>

theorem empty_input_counterexample:
  "normalize_records ([] :: stamped list) 48 \<noteq> Inl InvalidInputError"
  by (simp add: normalize_records_def)

text \<open>
  C7 (amended).  For the empty list and every requested horizon, the preparation returns
  the empty data set without an error, and no timer is installed on it: the clock stays
  stopped.
\<close>

theorem empty_input_stopped:
  "normalize_records ([] :: ('a stamped_scheme) list) historyHours = Inr []
   \<and> mount (fullData ([] :: ('a stamped_scheme) list) historyHours) = None"
  by (simp add: normalize_records_def fullData_def mount_def)

theorem empty_input_stopped_witness:
  "normalize_records ([] :: stamped list) 48 = Inr []
   \<and> mount (fullData ([] :: stamped list) 48) = None"
  using empty_input_stopped[where 'a = unit and historyHours = 48] by simp

section \<open>The simulation clock: properties\<close>

lemma msPerTick_30: "msPerTick 30 = 180000"
  by (simp add: msPerTick_def)

lemma tick_replay_clock:
  "fst (tick False replaySpeed tz fd ev c) =
     c\<lparr>timeRef := replay_now replaySpeed (startTimeRef c) (endTimeRef c) (timeRef c)\<rparr>"
  by (simp add: tick_def Let_def)

lemma tick_replay_out:
  "snd (tick False replaySpeed tz fd ev c) =
     \<lparr>currentTime = js_trunc (replay_now replaySpeed (startTimeRef c) (endTimeRef c) (timeRef c)),
      progress = progress_of (startTimeRef c) (endTimeRef c)
        (replay_now replaySpeed (startTimeRef c) (endTimeRef c) (timeRef c)),
      liveData = slice fd (replay_now replaySpeed (startTimeRef c) (endTimeRef c) (timeRef c))\<rparr>"
  by (simp add: tick_def Let_def add_noise_def)

lemma tick_bounds [simp]:
  "startTimeRef (fst (tick isLive replaySpeed tz fd ev c)) = startTimeRef c"
  "endTimeRef (fst (tick isLive replaySpeed tz fd ev c)) = endTimeRef c"
  by (simp_all add: tick_def Let_def)

lemma run_Cons:
  "run isLive replaySpeed tz fd (ev # evs) c =
     tick isLive replaySpeed tz fd ev c #
     run isLive replaySpeed tz fd evs (fst (tick isLive replaySpeed tz fd ev c))"
  by (simp add: Let_def split: prod.splits)

declare run.simps(2) [simp del]

subsection \<open>REPLAY\<close>

text \<open>
  C1 as stated fails: from \<open>T0\<close> with the end at \<open>T0\<close> plus ten minutes and three minutes
  per tick, the fourth tick does not leave the clock at \<open>T0\<close> plus two minutes.
\<close>

theorem replay_wraparound_counterexample:
  "timeRef (fst (last (run False 30 utc_zone ([] :: reading list)
      [sample_env, sample_env, sample_env, sample_env]
      \<lparr>timeRef = 1700000000000, startTimeRef = 1700000000000,
       endTimeRef = 1700000000000 + 600000\<rparr>)))
   \<noteq> 1700000000000 + 120000"
  by (simp add: run_Cons tick_replay_clock replay_now_def msPerTick_30 Let_def)

text \<open>
  C1 (amended).  A REPLAY tick advances the virtual time by \<open>replaySpeed / 10\<close> minutes,
  and sets it to the start of the data set when the advanced time reaches or passes the end.
  From \<open>T0\<close>, with the end at \<open>T0\<close> plus ten minutes and three minutes per tick, the virtual
  time after the first four ticks is \<open>T0\<close> plus three, six and nine minutes and then \<open>T0\<close>
  itself, the start of the data set.
\<close>

theorem replay_wraparound_reset:
  fixes T0 :: int and tz :: zone and c :: clock and replaySpeed :: real
    and fd :: "('a reading_scheme) list" and ev e1 e2 e3 e4 :: env
  defines "c0 \<equiv> \<lparr>timeRef = real_of_int T0, startTimeRef = T0, endTimeRef = T0 + 600000\<rparr>"
  defines "step \<equiv> (replaySpeed / 10) * 60000"
  shows "timeRef (fst (tick False replaySpeed tz fd ev c)) =
       (if timeRef c + step \<ge> real_of_int (endTimeRef c)
        then real_of_int (startTimeRef c) else timeRef c + step)
    \<and> map (timeRef \<circ> fst) (run False 30 tz fd [e1, e2, e3, e4] c0) =
       [real_of_int T0 + 180000, real_of_int T0 + 360000, real_of_int T0 + 540000,
        real_of_int T0]"
proof -
  have a: "timeRef (fst (tick False replaySpeed tz fd ev c)) =
       (if timeRef c + step \<ge> real_of_int (endTimeRef c)
        then real_of_int (startTimeRef c) else timeRef c + step)"
    by (simp add: tick_replay_clock replay_now_def msPerTick_def step_def Let_def)
  have b: "map (timeRef \<circ> fst) (run False 30 tz fd [e1, e2, e3, e4] c0) =
       [real_of_int T0 + 180000, real_of_int T0 + 360000, real_of_int T0 + 540000,
        real_of_int T0]"
    by (simp add: run_Cons tick_replay_clock replay_now_def msPerTick_30 c0_def Let_def)
  from a b show ?thesis by blast
qed

theorem replay_wraparound_reset_witness:
  "map (timeRef \<circ> fst) (run False 30 utc_zone ([] :: reading list)
      [sample_env, sample_env, sample_env, sample_env]
      \<lparr>timeRef = 1700000000000, startTimeRef = 1700000000000,
       endTimeRef = 1700000600000\<rparr>) =
     [1700000180000, 1700000360000, 1700000540000, 1700000000000]"
  using replay_wraparound_reset[where ?T0.0 = 1700000000000 and tz = utc_zone
      and fd = "[] :: reading list" and ?e1.0 = sample_env and ?e2.0 = sample_env
      and ?e3.0 = sample_env and ?e4.0 = sample_env]
  by simp

lemma replay_now_range:
  assumes "s < e" "0 < replaySpeed" "real_of_int s \<le> now0"
  shows "real_of_int s \<le> replay_now replaySpeed s e now0
    \<and> replay_now replaySpeed s e now0 < real_of_int e"
  using assms by (auto simp: replay_now_def msPerTick_def Let_def)

lemma replay_run_range:
  assumes "startTimeRef c < endTimeRef c" "0 < replaySpeed"
    and "real_of_int (startTimeRef c) \<le> timeRef c"
    and "(c', out) \<in> set (run False replaySpeed tz fd evs c)"
  shows "startTimeRef c' = startTimeRef c \<and> endTimeRef c' = endTimeRef c
    \<and> real_of_int (startTimeRef c) \<le> timeRef c' \<and> timeRef c' < real_of_int (endTimeRef c)
    \<and> currentTime out = js_trunc (timeRef c')
    \<and> liveData out = slice fd (timeRef c')"
  using assms
proof (induction evs arbitrary: c)
  case Nil
  then show ?case by simp
next
  case (Cons ev evs)
  let ?t = "tick False replaySpeed tz fd ev c"
  have rng: "real_of_int (startTimeRef c) \<le> timeRef (fst ?t)
      \<and> timeRef (fst ?t) < real_of_int (endTimeRef c)"
    using replay_now_range[OF Cons.prems(1,2,3)] by (simp add: tick_replay_clock)
  from Cons.prems(4) consider "(c', out) = ?t"
    | "(c', out) \<in> set (run False replaySpeed tz fd evs (fst ?t))"
    by (auto simp: run_Cons)
  then show ?case
  proof cases
    case 1
    then have "c' = fst ?t" "out = snd ?t" by (metis fst_conv, metis snd_conv)
    with rng show ?thesis by (simp add: tick_replay_out) (simp add: tick_replay_clock)
  next
    case 2
    have "startTimeRef (fst ?t) < endTimeRef (fst ?t)" using Cons.prems(1) by simp
    moreover have "real_of_int (startTimeRef (fst ?t)) \<le> timeRef (fst ?t)" using rng by simp
    ultimately show ?thesis using Cons.IH[OF _ Cons.prems(2) _ 2] by simp
  qed
qed

text \<open>
  C10.  For a data set whose start lies strictly before its end and a positive replay
  speed, starting with the virtual time at the start: after every REPLAY tick of a run the
  virtual time is at or after the start and strictly before the end, the tick publishes
  its whole milliseconds, and the window the tick publishes holds no row stamped with the
  end of the data set.
\<close>

theorem replay_range_invariant:
  assumes "timeRef c = real_of_int (startTimeRef c)" "startTimeRef c < endTimeRef c"
    and "0 < replaySpeed"
    and "(c', out) \<in> set (run False replaySpeed tz fd evs c)"
  shows "real_of_int (startTimeRef c) \<le> timeRef c' \<and> timeRef c' < real_of_int (endTimeRef c)
    \<and> currentTime out = js_trunc (timeRef c')
    \<and> (\<forall>d \<in> set (liveData out). timestamp d \<noteq> endTimeRef c)"
proof -
  have "real_of_int (startTimeRef c) \<le> timeRef c" using assms(1) by simp
  from replay_run_range[OF assms(2,3) this assms(4)]
  show ?thesis by (auto simp: slice_def)
qed

theorem replay_range_invariant_witness:
  "timeRef ten_minutes_clock = real_of_int (startTimeRef ten_minutes_clock)
   \<and> startTimeRef ten_minutes_clock < endTimeRef ten_minutes_clock
   \<and> mount ten_minutes = Some ten_minutes_clock
   \<and> timeRef (fst (tick False 60 utc_zone ten_minutes sample_env ten_minutes_clock)) = 1700000360000
   \<and> 1700000000000 \<le> timeRef (fst (tick False 60 utc_zone ten_minutes sample_env ten_minutes_clock))
   \<and> timeRef (fst (tick False 60 utc_zone ten_minutes sample_env ten_minutes_clock)) < 1700000600000
   \<and> liveData (snd (tick False 60 utc_zone ten_minutes sample_env ten_minutes_clock)) =
       [sample_row 1700000000000]"
proof -
  let ?t = "tick False 60 utc_zone ten_minutes sample_env ten_minutes_clock"
  have h1: "timeRef ten_minutes_clock = real_of_int (startTimeRef ten_minutes_clock)"
    by (simp add: ten_minutes_clock_def)
  have h2: "startTimeRef ten_minutes_clock < endTimeRef ten_minutes_clock"
    by (simp add: ten_minutes_clock_def)
  have h3: "(0::real) < 60" by simp
  have h4: "(fst ?t, snd ?t) \<in> set (run False 60 utc_zone ten_minutes [sample_env] ten_minutes_clock)"
    by (simp add: run_Cons)
  have m: "mount ten_minutes = Some ten_minutes_clock"
    by (simp add: mount_def ten_minutes_def ten_minutes_clock_def sample_row_def)
  have v: "timeRef (fst ?t) = 1700000360000"
    by (simp add: tick_replay_clock replay_now_def msPerTick_def ten_minutes_clock_def)
  have w: "liveData (snd ?t) = [sample_row 1700000000000]"
    by (simp add: tick_replay_out replay_now_def msPerTick_def ten_minutes_clock_def
        ten_minutes_def slice_def sample_row_def)
  from replay_range_invariant[OF h1 h2 h3 h4] h1 h2 m v w show ?thesis
    by (simp add: ten_minutes_clock_def)
qed

subsection \<open>LIVE\<close>

lemma tod_range:
  assumes "h < 24" "m < 60" "s < 60" "0 \<le> ms" "ms < 1000"
  shows "0 \<le> MakeTime h m s ms" and "MakeTime h m s ms < day_ms"
  using assms by (simp_all add: MakeTime_def day_ms_def)

lemma targetTime_local:
  "targetTime tz e w =
     UTC_time tz (MakeDate (Day (LocalTime tz e))
       (MakeTime (hours w) (minutes w) (seconds w) (msFromTime (LocalTime tz e))))"
  by (simp add: targetTime_def setHours_def Let_def)

lemma live_now_cases:
  "live_now tz s e w =
     (if targetTime tz e w > e \<and> s \<le> targetTime tz e w - day_ms then targetTime tz e w - day_ms
      else if targetTime tz e w \<le> e \<and> targetTime tz e w < s then targetTime tz e w + day_ms
      else targetTime tz e w)"
  by (auto simp: live_now_def Let_def)

lemma tick_live_clock:
  "fst (tick True replaySpeed tz fd ev c) =
     c\<lparr>timeRef := real_of_int (live_now tz (startTimeRef c) (endTimeRef c) (realNow ev))\<rparr>"
  by (simp add: tick_def Let_def)

text \<open>
  C2 as stated fails twice on a data set from 08:00 to 10:00 of one day in universal time,
  at the wall-clock time 12:00:00.500: the candidate is 12:00:00.000 of that day, without
  the half second of the wall clock, and after the two wrap-around tests the virtual time
  is still 12:00 of that day, after the end of the data set.
\<close>

theorem live_day_mapping_counterexample:
  "\<not> (LocalTime utc_zone (targetTime utc_zone 1700042400000
          \<lparr>hours = 12, minutes = 0, seconds = 0, milliseconds = 500\<rparr>) mod day_ms
        = 12 * 3600000 + 0 * 60000 + 0 * 1000 + 500)
   \<and> \<not> (timeRef (fst (tick True 60 utc_zone ([] :: reading list) sample_env
          \<lparr>timeRef = 1700035200000, startTimeRef = 1700035200000,
           endTimeRef = 1700042400000\<rparr>))
        \<le> real_of_int 1700042400000)"
  by (simp add: tick_live_clock sample_env_def live_now_def targetTime_def setHours_def
      LocalTime_def UTC_time_def MakeDate_def MakeTime_def Day_def msFromTime_def
      utc_zone_def day_ms_def)

text \<open>
  C2 (amended).  For every time zone and every wall-clock reading with an hour below 24 and
  a minute and a second below 60: the candidate of the LIVE tick is the instant that the
  zone gives to a local date and time which lies on the local calendar day of the end of
  the data set, at the hour, minute and second of the wall clock and the millisecond of
  the end of the data set (the sub-second part of the wall clock is not used).  After the
  two wrap-around tests the virtual time is the candidate, or the candidate moved by 24
  hours one way or the other, and it lies between the start and the end of the data set,
  both included, exactly when one of these three instants does.
\<close>

theorem live_day_mapping:
  fixes tz :: zone and c :: clock and ev :: env and fd :: "('a reading_scheme) list"
    and replaySpeed :: real
  defines "w \<equiv> realNow ev" and "s \<equiv> startTimeRef c" and "e \<equiv> endTimeRef c"
  defines "lt \<equiv> LocalTime tz e"
  defines "tod \<equiv> int (hours w) * 3600000 + int (minutes w) * 60000 + int (seconds w) * 1000
      + lt mod 1000"
  defines "cand \<equiv> targetTime tz e w"
  defines "now \<equiv> timeRef (fst (tick True replaySpeed tz fd ev c))"
  assumes w: "hours w < 24" "minutes w < 60" "seconds w < 60"
  shows "cand = UTC_time tz (MakeDate (Day lt) tod)
    \<and> Day (MakeDate (Day lt) tod) = Day lt
    \<and> MakeDate (Day lt) tod mod day_ms = tod
    \<and> (now = real_of_int cand \<or> now = real_of_int (cand - day_ms)
        \<or> now = real_of_int (cand + day_ms))
    \<and> ((real_of_int s \<le> now \<and> now \<le> real_of_int e) \<longleftrightarrow>
          (s \<le> cand \<and> cand \<le> e) \<or> (s \<le> cand - day_ms \<and> cand - day_ms \<le> e)
          \<or> (s \<le> cand + day_ms \<and> cand + day_ms \<le> e))"
proof -
  have tod: "tod = MakeTime (hours w) (minutes w) (seconds w) (msFromTime lt)"
    by (simp add: tod_def MakeTime_def msFromTime_def)
  have ms: "0 \<le> msFromTime lt" "msFromTime lt < 1000" by (simp_all add: msFromTime_def)
  have t0: "0 \<le> tod" and t1: "tod < day_ms"
    unfolding tod using tod_range[OF w ms] by simp_all
  have a: "cand = UTC_time tz (MakeDate (Day lt) tod)"
    unfolding cand_def tod lt_def by (rule targetTime_local)
  have dpos: "0 < day_ms" by (simp add: day_ms_def)
  have b: "Day (MakeDate (Day lt) tod) = Day lt"
    using t0 t1 dpos by (simp add: Day_def MakeDate_def div_pos_pos_trivial)
  have d: "MakeDate (Day lt) tod mod day_ms = tod"
    using t0 t1 by (simp add: MakeDate_def mod_pos_pos_trivial)
  have n: "now = real_of_int (live_now tz s e w)"
    by (simp add: now_def tick_live_clock s_def e_def w_def)
  have f: "now = real_of_int cand \<or> now = real_of_int (cand - day_ms)
      \<or> now = real_of_int (cand + day_ms)"
    unfolding n live_now_cases cand_def by simp
  have "(s \<le> live_now tz s e w \<and> live_now tz s e w \<le> e) \<longleftrightarrow>
      (s \<le> cand \<and> cand \<le> e) \<or> (s \<le> cand - day_ms \<and> cand - day_ms \<le> e)
      \<or> (s \<le> cand + day_ms \<and> cand + day_ms \<le> e)"
    unfolding live_now_cases cand_def using dpos by auto
  then have g: "(real_of_int s \<le> now \<and> now \<le> real_of_int e) \<longleftrightarrow>
      (s \<le> cand \<and> cand \<le> e) \<or> (s \<le> cand - day_ms \<and> cand - day_ms \<le> e)
      \<or> (s \<le> cand + day_ms \<and> cand + day_ms \<le> e)"
    unfolding n by simp
  from a b d f g show ?thesis by blast
qed

theorem live_day_mapping_witness:
  "hours (realNow late_evening) < 24 \<and> minutes (realNow late_evening) < 60
   \<and> seconds (realNow late_evening) < 60
   \<and> endTimeRef fall_back_clock - startTimeRef fall_back_clock = day_ms
   \<and> LocalTime new_york (endTimeRef fall_back_clock) = 1699142400000
   \<and> targetTime new_york (endTimeRef fall_back_clock) (realNow late_evening) = 1699245000000
   \<and> timeRef (fst (tick True 60 new_york ([] :: reading list) late_evening fall_back_clock))
       = 1699158600000
   \<and> \<not> (timeRef (fst (tick True 60 new_york ([] :: reading list) late_evening
            fall_back_clock)) \<le> real_of_int (endTimeRef fall_back_clock))
   \<and> timeRef (fst (tick True 60 utc_zone ([] :: reading list) sample_env full_day_clock))
       = 1699963200000
   \<and> real_of_int (startTimeRef full_day_clock) \<le> 1699963200000
   \<and> 1699963200000 \<le> real_of_int (endTimeRef full_day_clock)"
proof -
  have h1: "hours (realNow late_evening) < 24" by (simp add: late_evening_def)
  have h2: "minutes (realNow late_evening) < 60" by (simp add: late_evening_def)
  have h3: "seconds (realNow late_evening) < 60" by (simp add: late_evening_def)
  have sp: "endTimeRef fall_back_clock - startTimeRef fall_back_clock = day_ms"
    by (simp add: fall_back_clock_def day_ms_def)
  have lt: "LocalTime new_york (endTimeRef fall_back_clock) = 1699142400000"
    by (simp add: fall_back_clock_def new_york_def LocalTime_def)
  have v1: "targetTime new_york (endTimeRef fall_back_clock) (realNow late_evening)
      = 1699245000000"
    by (simp add: fall_back_clock_def late_evening_def new_york_def targetTime_def
        setHours_def LocalTime_def UTC_time_def MakeDate_def MakeTime_def Day_def
        msFromTime_def day_ms_def)
  have v2: "timeRef (fst (tick True 60 new_york ([] :: reading list) late_evening
      fall_back_clock)) = 1699158600000"
    by (simp add: tick_live_clock live_now_def v1 Let_def)
      (simp add: fall_back_clock_def day_ms_def)
  have v3: "timeRef (fst (tick True 60 utc_zone ([] :: reading list) sample_env
      full_day_clock)) = 1699963200000"
    by (simp add: tick_live_clock full_day_clock_def sample_env_def live_now_def
        targetTime_def setHours_def LocalTime_def UTC_time_def MakeDate_def MakeTime_def
        Day_def msFromTime_def utc_zone_def day_ms_def)
  have b: "real_of_int (startTimeRef full_day_clock) \<le> 1699963200000
      \<and> 1699963200000 \<le> real_of_int (endTimeRef full_day_clock)"
    by (simp add: full_day_clock_def)
  have out: "\<not> (timeRef (fst (tick True 60 new_york ([] :: reading list) late_evening
      fall_back_clock)) \<le> real_of_int (endTimeRef fall_back_clock))"
    using live_day_mapping[OF h1 h2 h3, where tz = new_york and replaySpeed = 60
        and fd = "[] :: reading list" and c = fall_back_clock]
    by (simp add: v1 v2) (simp add: fall_back_clock_def day_ms_def)
  from h1 h2 h3 sp lt v1 v2 out v3 b show ?thesis by blast
qed

subsection \<open>Progress\<close>

text \<open>
  C9.  The division by the length of the data set is not guarded.  On a data set of one
  row the hook is mounted with equal bounds, and a REPLAY tick at the default speed
  publishes a progress that is not a number.
\<close>

theorem single_record_progress:
  "mount [sample_row 1700000000000] =
     Some \<lparr>timeRef = 1700000000000, startTimeRef = 1700000000000,
           endTimeRef = 1700000000000\<rparr>
   \<and> progress (snd (tick False 60 utc_zone [sample_row 1700000000000] sample_env
        \<lparr>timeRef = 1700000000000, startTimeRef = 1700000000000,
         endTimeRef = 1700000000000\<rparr>)) = NaN"
  by (simp add: mount_def sample_row_def tick_replay_out replay_now_def msPerTick_def
      progress_of_def js_div_def Let_def)

section \<open>Run-length segmentation: properties\<close>

lemma scan_acc: "scan bs cur ps = bs @ scan [] cur ps"
proof (induction ps arbitrary: bs cur)
  case Nil
  show ?case by simp
next
  case (Cons p ps)
  show ?case
    using Cons.IH[of "bs @ [cur]" "open_block p"] Cons.IH[of "[cur]" "open_block p"]
      Cons.IH[of bs "cur\<lparr>block_end := timestamp p\<rparr>"]
    by simp
qed

lemma scan_break:
  "state p \<noteq> block_state cur \<or> animalId p \<noteq> block_animalId cur \<Longrightarrow>
   scan [] cur (p # ps) = cur # scan [] (open_block p) ps"
  using scan_acc[of "[cur]" "open_block p" ps] by simp

lemma scan_hd: "scan [] cur ps \<noteq> [] \<and> block_tag (hd (scan [] cur ps)) = block_tag cur"
proof (induction ps arbitrary: cur)
  case Nil
  show ?case by simp
next
  case (Cons p ps)
  show ?case
  proof (cases "state p \<noteq> block_state cur \<or> animalId p \<noteq> block_animalId cur")
    case True
    then show ?thesis by (simp only: scan_break) simp
  next
    case False
    then show ?thesis using Cons.IH[of "cur\<lparr>block_end := timestamp p\<rparr>"]
      by (simp add: block_tag_def)
  qed
qed

lemma scan_distinct_adj: "distinct_adj (map block_tag (scan [] cur ps))"
proof (induction ps arbitrary: cur)
  case Nil
  show ?case by simp
next
  case (Cons p ps)
  show ?case
  proof (cases "state p \<noteq> block_state cur \<or> animalId p \<noteq> block_animalId cur")
    case True
    have "block_tag cur \<noteq> block_tag (open_block p)"
      using True by (auto simp: block_tag_def open_block_def)
    then show ?thesis
      using Cons.IH[of "open_block p"] scan_hd[of "open_block p" ps]
      by (simp only: scan_break[OF True]) (simp add: distinct_adj_Cons hd_map)
  next
    case False
    then show ?thesis using Cons.IH[of "cur\<lparr>block_end := timestamp p\<rparr>"] by simp
  qed
qed

lemma key_le_same_animal:
  "animalId p = animalId q \<Longrightarrow>
   sort_key_of p \<le> sort_key_of q \<longleftrightarrow> timestamp p \<le> timestamp q"
  by (auto simp: sort_key_of_def less_eq_prod_def)

lemma covers_open: "covers (open_block p) [p]"
  by (simp add: covers_def open_block_def)

lemma covers_extend:
  assumes c: "covers cur r" and s: "sorted (map sort_key_of (r @ [p]))"
    and st: "state p = block_state cur" and an: "animalId p = block_animalId cur"
  shows "covers (cur\<lparr>block_end := timestamp p\<rparr>) (r @ [p])"
proof -
  from c have ne: "r \<noteq> []" by (simp add: covers_def)
  have all: "\<And>q. q \<in> set r \<Longrightarrow>
      animalId q = block_animalId cur \<and> state q = block_state cur \<and>
      block_start cur \<le> timestamp q"
    using c by (auto simp: covers_def list_all_iff)
  have le: "timestamp q \<le> timestamp p" if "q \<in> set r" for q
  proof -
    have "sort_key_of q \<le> sort_key_of p" using s that by (auto simp: sorted_append)
    moreover have "animalId q = animalId p" using all[OF that] an by simp
    ultimately show ?thesis by (simp add: key_le_same_animal)
  qed
  have "hd r \<in> set r" using ne by simp
  then have "block_start cur \<le> timestamp p" using all[of "hd r"] le[of "hd r"] by simp
  moreover have "block_start cur = timestamp (hd r)" using c by (simp add: covers_def)
  ultimately show ?thesis
    using ne all le st an by (auto simp: covers_def list_all_iff)
qed

lemma scan_covers:
  "covers cur r \<Longrightarrow> sorted (map sort_key_of (r @ ps)) \<Longrightarrow>
   \<exists>rs. concat rs = r @ ps \<and> list_all2 covers (scan [] cur ps) rs"
proof (induction ps arbitrary: cur r)
  case Nil
  then have "concat [r] = r @ [] \<and> list_all2 covers (scan [] cur []) [r]" by simp
  then show ?case by blast
next
  case (Cons p ps)
  show ?case
  proof (cases "state p \<noteq> block_state cur \<or> animalId p \<noteq> block_animalId cur")
    case True
    have "sorted (map sort_key_of ([p] @ ps))"
      using Cons.prems(2) by (simp add: sorted_append)
    from Cons.IH[OF covers_open this] obtain rs where
      rs: "concat rs = [p] @ ps" "list_all2 covers (scan [] (open_block p) ps) rs" by blast
    have "concat (r # rs) = r @ p # ps \<and> list_all2 covers (scan [] cur (p # ps)) (r # rs)"
      using rs Cons.prems(1) by (simp only: scan_break[OF True]) simp
    then show ?thesis by blast
  next
    case False
    have s1: "sorted (map sort_key_of (r @ [p]))"
      using Cons.prems(2) by (simp add: sorted_append)
    have c: "covers (cur\<lparr>block_end := timestamp p\<rparr>) (r @ [p])"
      using covers_extend[OF Cons.prems(1) s1] False by simp
    have "sorted (map sort_key_of ((r @ [p]) @ ps))" using Cons.prems(2) by simp
    from Cons.IH[OF c this] obtain rs where
      "concat rs = (r @ [p]) @ ps"
      "list_all2 covers (scan [] (cur\<lparr>block_end := timestamp p\<rparr>) ps) rs"
      by blast
    then have "concat rs = r @ p # ps \<and> list_all2 covers (scan [] cur (p # ps)) rs"
      using False by simp
    then show ?thesis by blast
  qed
qed

lemma segment_covers:
  assumes "sorted (map sort_key_of sd)"
  shows "\<exists>rs. concat rs = sd \<and> list_all2 covers (segment sd) rs"
proof (cases sd)
  case Nil
  then have "concat [] = sd \<and> list_all2 covers (segment sd) []" by (simp add: segment_def)
  then show ?thesis by blast
next
  case (Cons p ps)
  have "sorted (map sort_key_of ([p] @ ps))" using assms Cons by simp
  from scan_covers[OF covers_open this] show ?thesis using Cons by (simp add: segment_def)
qed

lemma segment_distinct_adj: "distinct_adj (map block_tag (segment sd))"
  by (cases sd) (simp_all add: segment_def scan_distinct_adj)

lemma concat_sorted_nth:
  "sorted (map f (concat rs)) \<Longrightarrow> i < j \<Longrightarrow> j < length rs \<Longrightarrow> x \<in> set (rs ! i) \<Longrightarrow>
   y \<in> set (rs ! j) \<Longrightarrow> f x \<le> f y"
proof (induction rs arbitrary: i j)
  case Nil
  then show ?case by simp
next
  case (Cons r rs)
  obtain j' where j: "j = Suc j'" using Cons.prems(2) by (cases j) auto
  show ?case
  proof (cases i)
    case 0
    have "y \<in> set (concat rs)" using Cons.prems(3,5) j by auto
    moreover have "x \<in> set r" using Cons.prems(4) 0 by simp
    ultimately show ?thesis using Cons.prems(1) by (auto simp: sorted_append)
  next
    case (Suc i')
    have "sorted (map f (concat rs))" using Cons.prems(1) by (simp add: sorted_append)
    from Cons.IH[OF this, of i' j'] show ?thesis using Cons.prems j Suc by simp
  qed
qed

lemma blocks_ordered:
  assumes s: "sorted (map sort_key_of (concat rs))" and c: "list_all2 covers bs rs"
  shows "sorted_wrt
    (\<lambda>a b. block_animalId a = block_animalId b \<longrightarrow> block_end a \<le> block_start b) bs"
proof -
  have len: "length bs = length rs" using c by (rule list_all2_lengthD)
  have "block_end (bs ! i) \<le> block_start (bs ! j)"
    if ij: "i < j" "j < length bs"
      and an: "block_animalId (bs ! i) = block_animalId (bs ! j)" for i j
  proof -
    have ci: "covers (bs ! i) (rs ! i)" and cj: "covers (bs ! j) (rs ! j)"
      using c ij by (auto simp: list_all2_conv_all_nth)
    let ?x = "last (rs ! i)" and ?y = "hd (rs ! j)"
    have x: "?x \<in> set (rs ! i)" and y: "?y \<in> set (rs ! j)"
      using ci cj by (simp_all add: covers_def)
    have "sort_key_of ?x \<le> sort_key_of ?y"
      using concat_sorted_nth[OF s ij(1) _ x y] ij(2) len by simp
    moreover have "animalId ?x = animalId ?y"
      using ci cj x y an by (auto simp: covers_def list_all_iff)
    ultimately have "timestamp ?x \<le> timestamp ?y" by (simp add: key_le_same_animal)
    then show ?thesis using ci cj by (simp add: covers_def)
  qed
  then show ?thesis by (auto simp: sorted_wrt_iff_nth_less)
qed

lemma key_less_same_animal:
  "animalId p = animalId q \<Longrightarrow> sort_key_of p \<le> sort_key_of q \<Longrightarrow>
   sort_key_of p \<noteq> sort_key_of q \<Longrightarrow> timestamp p < timestamp q"
  by (auto simp: sort_key_of_def less_eq_prod_def)

lemma concat_distinct_nth:
  "distinct (map f (concat rs)) \<Longrightarrow> i < j \<Longrightarrow> j < length rs \<Longrightarrow> x \<in> set (rs ! i) \<Longrightarrow>
   y \<in> set (rs ! j) \<Longrightarrow> f x \<noteq> f y"
proof (induction rs arbitrary: i j)
  case Nil
  then show ?case by simp
next
  case (Cons r rs)
  obtain j' where j: "j = Suc j'" using Cons.prems(2) by (cases j) auto
  show ?case
  proof (cases i)
    case 0
    have "y \<in> set (concat rs)" using Cons.prems(3,5) j by auto
    moreover have "x \<in> set r" using Cons.prems(4) 0 by simp
    ultimately show ?thesis using Cons.prems(1) by auto
  next
    case (Suc i')
    have "distinct (map f (concat rs))" using Cons.prems(1) by simp
    from Cons.IH[OF this, of i' j'] show ?thesis using Cons.prems j Suc by simp
  qed
qed

lemma blocks_strictly_ordered:
  assumes s: "sorted (map sort_key_of (concat rs))"
    and d: "distinct (map sort_key_of (concat rs))"
    and c: "list_all2 covers bs rs"
    and ij: "i < j" "j < length bs"
    and an: "block_animalId (bs ! i) = block_animalId (bs ! j)"
  shows "block_end (bs ! i) < block_start (bs ! j)"
proof -
  have len: "length bs = length rs" using c by (rule list_all2_lengthD)
  have ci: "covers (bs ! i) (rs ! i)" and cj: "covers (bs ! j) (rs ! j)"
    using c ij by (auto simp: list_all2_conv_all_nth)
  let ?x = "last (rs ! i)" and ?y = "hd (rs ! j)"
  have x: "?x \<in> set (rs ! i)" and y: "?y \<in> set (rs ! j)"
    using ci cj by (simp_all add: covers_def)
  have jl: "j < length rs" using ij(2) len by simp
  have "sort_key_of ?x \<le> sort_key_of ?y"
    by (rule concat_sorted_nth[OF s ij(1) jl x y])
  moreover have "sort_key_of ?x \<noteq> sort_key_of ?y"
    by (rule concat_distinct_nth[OF d ij(1) jl x y])
  moreover have "animalId ?x = animalId ?y"
    using ci cj x y an by (auto simp: covers_def list_all_iff)
  ultimately have "timestamp ?x < timestamp ?y" by (rule key_less_same_animal[rotated])
  then show ?thesis using ci cj by (simp add: covers_def)
qed

lemma covered_once:
  assumes s: "sorted (map sort_key_of (concat rs))"
    and d: "distinct (map sort_key_of (concat rs))"
    and c: "list_all2 covers bs rs"
    and p: "p \<in> set (concat rs)"
  shows "\<exists>b \<in> set bs. in_block b p \<and> block_state b = state p \<and>
           (\<forall>b' \<in> set bs. in_block b' p \<longrightarrow> b' = b)"
proof -
  have len: "length bs = length rs" using c by (rule list_all2_lengthD)
  from p obtain r where r: "r \<in> set rs" "p \<in> set r" by auto
  then obtain i where i: "i < length rs" "rs ! i = r" by (auto simp: in_set_conv_nth)
  have ci: "covers (bs ! i) r" using c i by (auto simp: list_all2_conv_all_nth)
  have inb: "in_block (bs ! i) p" and st: "block_state (bs ! i) = state p"
    using ci r(2) by (auto simp: covers_def list_all_iff in_block_def)
  have mem: "bs ! i \<in> set bs" using i(1) len by simp
  have uniq: "b' = bs ! i" if b': "b' \<in> set bs" "in_block b' p" for b'
  proof -
    from b'(1) obtain j where j: "j < length bs" "bs ! j = b'" by (auto simp: in_set_conv_nth)
    have an: "block_animalId (bs ! i) = block_animalId (bs ! j)"
      using inb b'(2) j(2) by (simp add: in_block_def)
    consider "j = i" | "i < j" | "j < i" by linarith
    then show ?thesis
    proof cases
      case 1
      then show ?thesis using j(2) by simp
    next
      case 2
      from blocks_strictly_ordered[OF s d c 2 j(1) an]
      have "block_end (bs ! i) < block_start (bs ! j)" .
      then show ?thesis using inb b'(2) j(2) by (simp add: in_block_def)
    next
      case 3
      have il: "i < length bs" using i(1) len by simp
      from blocks_strictly_ordered[OF s d c 3 il an[symmetric]]
      have "block_end (bs ! j) < block_start (bs ! i)" .
      then show ?thesis using inb b'(2) j(2) by (simp add: in_block_def)
    qed
  qed
  from mem inb st uniq show ?thesis by blast
qed

lemma distinct_sortedData:
  "distinct (map sort_key_of dataPoints) \<Longrightarrow>
   distinct (map sort_key_of (sortedData dataPoints))"
  by (simp add: sortedData_def distinct_map)

lemma key_le_animal: "sort_key_of p \<le> sort_key_of q \<Longrightarrow> animalId p \<le> animalId q"
  by (auto simp: sort_key_of_def less_eq_prod_def)

lemma blocks_grouped:
  assumes s: "sorted (map sort_key_of (concat rs))" and c: "list_all2 covers bs rs"
  shows "sorted (map block_animalId bs)"
proof -
  have len: "length bs = length rs" using c by (rule list_all2_lengthD)
  have "block_animalId (bs ! i) \<le> block_animalId (bs ! j)"
    if ij: "i < j" "j < length bs" for i j
  proof -
    have ci: "covers (bs ! i) (rs ! i)" and cj: "covers (bs ! j) (rs ! j)"
      using c ij by (auto simp: list_all2_conv_all_nth)
    let ?x = "hd (rs ! i)" and ?y = "hd (rs ! j)"
    have x: "?x \<in> set (rs ! i)" and y: "?y \<in> set (rs ! j)"
      using ci cj by (simp_all add: covers_def)
    have jl: "j < length rs" using ij(2) len by simp
    have "sort_key_of ?x \<le> sort_key_of ?y"
      by (rule concat_sorted_nth[OF s ij(1) jl x y])
    then have "animalId ?x \<le> animalId ?y" by (rule key_le_animal)
    moreover have "animalId ?x = block_animalId (bs ! i)"
      using ci x by (auto simp: covers_def list_all_iff)
    moreover have "animalId ?y = block_animalId (bs ! j)"
      using cj y by (auto simp: covers_def list_all_iff)
    ultimately show ?thesis by simp
  qed
  then show ?thesis by (auto simp: sorted_map sorted_wrt_iff_nth_less)
qed

text \<open>In a list grouped by a key, neighbours inside one group are neighbours of the list.\<close>

lemma grouped_distinct_adj:
  fixes f :: "'a \<Rightarrow> 'k::linorder"
  assumes "sorted (map f xs)" and "distinct_adj (map (\<lambda>x. (f x, g x)) xs)"
  shows "distinct_adj (map g (filter (\<lambda>x. f x = a) xs))"
  using assms
proof (induction xs)
  case Nil
  show ?case by simp
next
  case (Cons x xs)
  have st: "sorted (map f xs)" using Cons.prems(1) by simp
  have da: "distinct_adj (map (\<lambda>x. (f x, g x)) xs)"
    using Cons.prems(2) by (auto simp: distinct_adj_Cons)
  note IH = Cons.IH[OF st da]
  show ?case
  proof (cases "f x = a")
    case False
    then show ?thesis using IH by simp
  next
    case True
    show ?thesis
    proof (cases "filter (\<lambda>x. f x = a) xs")
      case Nil
      then show ?thesis using True by simp
    next
      case fl: (Cons z zs)
      have "z \<in> set (filter (\<lambda>x. f x = a) xs)" by (simp add: fl)
      then have z: "z \<in> set xs" "f z = a" by simp_all
      then obtain y ys where xs: "xs = y # ys" by (cases xs) auto
      have "f x \<le> f y" using Cons.prems(1) xs by simp
      moreover have "f y \<le> f z" using st z(1) xs by auto
      ultimately have fy: "f y = a" using True z(2) by simp
      have "(f x, g x) \<noteq> (f y, g y)" using Cons.prems(2) xs by simp
      then have "g x \<noteq> g y" using True fy by simp
      then show ?thesis using True fy xs IH by simp
    qed
  qed
qed

lemma same_animal_ordered:
  assumes "sorted_wrt
      (\<lambda>a b. block_animalId a = block_animalId b \<longrightarrow> block_end a \<le> block_start b) bs"
  shows "sorted_wrt (\<lambda>b c. block_end b \<le> block_start c)
      (filter (\<lambda>b. block_animalId b = a) bs)"
proof -
  have "sorted_wrt
      (\<lambda>a b. block_animalId a = block_animalId b \<longrightarrow> block_end a \<le> block_start b)
      (filter (\<lambda>b. block_animalId b = a) bs)"
    using assms by (rule sorted_wrt_filter)
  then show ?thesis by (rule sorted_wrt_mono_rel[rotated]) auto
qed

text \<open>
  C3 as stated fails on two points of one animal at the same instant with different
  states: two blocks are emitted, both for that animal and both with the time range from
  10 to 10, so the point lies in the time range of two blocks and not of exactly one.
\<close>

theorem segmentation_runs_counterexample:
  "chart_blocks same_instant =
     Some [\<lparr>block_state = 0, block_start = 10, block_end = 10, block_animalId = ''A''\<rparr>,
           \<lparr>block_state = 1, block_start = 10, block_end = 10, block_animalId = ''A''\<rparr>]
   \<and> \<lparr>timestamp = 10, state = 0, animalId = ''A''\<rparr> \<in> set same_instant
   \<and> in_block \<lparr>block_state = 0, block_start = 10, block_end = 10, block_animalId = ''A''\<rparr>
       \<lparr>timestamp = 10, state = 0, animalId = ''A''\<rparr>
   \<and> in_block \<lparr>block_state = 1, block_start = 10, block_end = 10, block_animalId = ''A''\<rparr>
       \<lparr>timestamp = 10, state = 0, animalId = ''A''\<rparr>
   \<and> \<lparr>block_state = 0, block_start = 10, block_end = 10, block_animalId = ''A''\<rparr>
       \<noteq> \<lparr>block_state = 1, block_start = 10, block_end = 10, block_animalId = ''A''\<rparr>"
proof -
  have v: "chart_blocks same_instant =
     Some [\<lparr>block_state = 0, block_start = 10, block_end = 10, block_animalId = ''A''\<rparr>,
           \<lparr>block_state = 1, block_start = 10, block_end = 10, block_animalId = ''A''\<rparr>]"
    unfolding same_instant_def by code_simp
  show ?thesis unfolding v by (simp add: same_instant_def in_block_def)
qed

text \<open>
  C3 (amended).  For every sequence of points, with \<open>sd\<close> its sorted copy and \<open>blocks\<close> the
  blocks emitted for it: \<open>sd\<close> is sorted by animal and then by instant and holds exactly the
  input points, none lost and none duplicated; \<open>sd\<close> splits into consecutive runs, one run
  for each block and in the order of the blocks, such that each block covers its run, so
  every point belongs to the run of exactly one block; the blocks of one animal stand
  together in the output; among the blocks of any one animal, no two consecutive ones have
  the same state, and each ends no later than the next ones start.  When no two points share
  both animal and instant, every point lies in the time range of exactly one block of its
  animal, and that block has the state of the point.
\<close>

theorem segmentation_runs:
  fixes dataPoints :: "point list"
  defines "sd \<equiv> sortedData dataPoints"
  defines "blocks \<equiv> segment sd"
  shows "mset sd = mset dataPoints
    \<and> sorted (map sort_key_of sd)
    \<and> (\<exists>rs. concat rs = sd \<and> list_all2 covers blocks rs)
    \<and> sorted (map block_animalId blocks)
    \<and> (\<forall>a. distinct_adj (map block_state (filter (\<lambda>b. block_animalId b = a) blocks)))
    \<and> (\<forall>a. sorted_wrt (\<lambda>b c. block_end b \<le> block_start c)
              (filter (\<lambda>b. block_animalId b = a) blocks))
    \<and> (distinct (map sort_key_of dataPoints) \<longrightarrow>
        (\<forall>p \<in> set dataPoints. \<exists>b \<in> set blocks.
           in_block b p \<and> block_state b = state p \<and>
           (\<forall>b' \<in> set blocks. in_block b' p \<longrightarrow> b' = b)))"
proof -
  have m: "mset sd = mset dataPoints" by (simp add: sd_def sortedData_def)
  have s: "sorted (map sort_key_of sd)" by (simp add: sd_def sortedData_def)
  from segment_covers[OF s] obtain rs where rs: "concat rs = sd" "list_all2 covers blocks rs"
    unfolding blocks_def by blast
  have s1: "sorted (map sort_key_of (concat rs))" using s by (simp add: rs(1))
  have gr: "sorted (map block_animalId blocks)"
    by (rule blocks_grouped[OF s1 rs(2)])
  have tg: "distinct_adj (map (\<lambda>b. (block_animalId b, block_state b)) blocks)"
    using segment_distinct_adj[of sd] by (simp add: blocks_def block_tag_def[abs_def])
  have mx: "distinct_adj (map block_state (filter (\<lambda>b. block_animalId b = a) blocks))" for a
    by (rule grouped_distinct_adj[OF gr tg])
  have od: "sorted_wrt (\<lambda>b c. block_end b \<le> block_start c)
      (filter (\<lambda>b. block_animalId b = a) blocks)" for a
    by (rule same_animal_ordered[OF blocks_ordered[OF s1 rs(2)]])
  have g: "\<exists>b \<in> set blocks. in_block b p \<and> block_state b = state p \<and>
        (\<forall>b' \<in> set blocks. in_block b' p \<longrightarrow> b' = b)"
    if dist: "distinct (map sort_key_of dataPoints)" and p: "p \<in> set dataPoints" for p
  proof -
    have d1: "distinct (map sort_key_of (concat rs))"
      using distinct_sortedData[OF dist] by (simp add: rs(1) sd_def)
    have p1: "p \<in> set (concat rs)" using p by (simp add: rs(1) sd_def sortedData_def)
    show ?thesis by (rule covered_once[OF s1 d1 rs(2) p1])
  qed
  from m s rs gr mx od g show ?thesis by blast
qed

theorem segmentation_runs_witness:
  "distinct (map sort_key_of two_animals)
   \<and> segment (sortedData two_animals) =
     [\<lparr>block_state = 0, block_start = 0, block_end = 10, block_animalId = ''A''\<rparr>,
      \<lparr>block_state = 1, block_start = 20, block_end = 20, block_animalId = ''A''\<rparr>,
      \<lparr>block_state = 1, block_start = 5, block_end = 5, block_animalId = ''B''\<rparr>]
   \<and> mset (sortedData two_animals) = mset two_animals
   \<and> distinct_adj (map block_state
       [\<lparr>block_state = 0, block_start = 0, block_end = 10, block_animalId = ''A''\<rparr>,
        \<lparr>block_state = 1, block_start = 20, block_end = 20, block_animalId = ''A''\<rparr>])
   \<and> (10::int) \<le> 20
   \<and> in_block \<lparr>block_state = 0, block_start = 0, block_end = 10, block_animalId = ''A''\<rparr>
       \<lparr>timestamp = 10, state = 0, animalId = ''A''\<rparr>
   \<and> \<not> in_block \<lparr>block_state = 1, block_start = 20, block_end = 20, block_animalId = ''A''\<rparr>
       \<lparr>timestamp = 10, state = 0, animalId = ''A''\<rparr>
   \<and> \<not> in_block \<lparr>block_state = 1, block_start = 5, block_end = 5, block_animalId = ''B''\<rparr>
       \<lparr>timestamp = 10, state = 0, animalId = ''A''\<rparr>"
proof -
  have h: "distinct (map sort_key_of two_animals)"
    by (simp add: two_animals_def sort_key_of_def)
  have v: "segment (sortedData two_animals) =
     [\<lparr>block_state = 0, block_start = 0, block_end = 10, block_animalId = ''A''\<rparr>,
      \<lparr>block_state = 1, block_start = 20, block_end = 20, block_animalId = ''A''\<rparr>,
      \<lparr>block_state = 1, block_start = 5, block_end = 5, block_animalId = ''B''\<rparr>]"
    unfolding two_animals_def by code_simp
  from segmentation_runs[of two_animals] h show ?thesis
    unfolding v by (simp add: in_block_def)
qed

text \<open>
  C4.  The points of the single animal \<open>A\<close> with the states 0, 0, 1, 1, 1, 0 at the
  instants 0, 10, 20, 30, 40, 50 yield exactly three blocks, in this order: state 0 from
  0 to 10, state 1 from 20 to 40, state 0 from 50 to 50.
\<close>

theorem segmentation_example:
  "chart_blocks
     [\<lparr>timestamp = 0, state = 0, animalId = ''A''\<rparr>,
      \<lparr>timestamp = 10, state = 0, animalId = ''A''\<rparr>,
      \<lparr>timestamp = 20, state = 1, animalId = ''A''\<rparr>,
      \<lparr>timestamp = 30, state = 1, animalId = ''A''\<rparr>,
      \<lparr>timestamp = 40, state = 1, animalId = ''A''\<rparr>,
      \<lparr>timestamp = 50, state = 0, animalId = ''A''\<rparr>] =
   Some
     [\<lparr>block_state = 0, block_start = 0, block_end = 10, block_animalId = ''A''\<rparr>,
      \<lparr>block_state = 1, block_start = 20, block_end = 40, block_animalId = ''A''\<rparr>,
      \<lparr>block_state = 0, block_start = 50, block_end = 50, block_animalId = ''A''\<rparr>]"
  by code_simp

end
